theory Spec2Isabelle
  imports Main
begin

section \<open>Data model of the search box component\<close>

text \<open>
  A JavaScript slot holds \<open>undefined\<close>, \<open>null\<close> or a value. The component compares
  against all three (\<open>=== true\<close>, \<open>=== false\<close>, \<open>isDefined\<close>), so the three are
  kept apart.
\<close>

datatype 'a js = Undefined | Null | Val 'a

text \<open>
  \<open>isDefined\<close> of \<open>@angular/compiler/src/util\<close>:
  \<open>val !== null && val !== undefined\<close>.
\<close>

fun isDefined :: "'a js \<Rightarrow> bool" where
  "isDefined Undefined = False"
| "isDefined Null = False"
| "isDefined (Val _) = True"

text \<open>
  Objects live in a heap and are handled through references, since the component
  mutates candidate records in place and copies them with \<open>Object.assign\<close>. The
  heap is a list, a reference is an index into it, allocation appends.
\<close>

type_synonym ref = nat

text \<open>
  \<open>RepositoryItemModel\<close>, with the fields of the literal built in \<open>keyDownEnter\<close>
  (\<open>occurenceId, repository, idNomen, idTaxo, name, author, isSynonym, validOccurence\<close>).
\<close>

record RepositoryItemModel =
  occurenceId :: "int js"
  repository :: "string js"
  idNomen :: "string js"
  idTaxo :: "string js"
  name :: "string js"
  author :: "string js"
  isSynonym :: "bool js"
  validOccurence :: "ref js"

text \<open>An entry of \<open>listRepo\<close>: \<open>{value: string, label: string}\<close>.\<close>

record repo_descriptor =
  repo_value :: string
  repo_label :: string

text \<open>
  The value of the \<open>input\<close> form control: a string while the user types, a candidate
  object once the user has picked a suggestion.
\<close>

datatype input_value = Str string | Obj ref

text \<open>
  What the component does to its collaborators, in the order it does it: emissions of
  its \<open>@Output\<close> emitters, calls on the autocomplete trigger and calls on the
  repository service.
\<close>

datatype action =
    NewData "ref js"
  | UpdatedData ref
  | CancelUpdateData "int js"
  | SelectedRepository string
  | AllResults "ref list"
  | HttpError string
  | OpenPanel
  | ClosePanel
  | FindDataFromRepo string string bool
  | GetValidOccurence "string js" "string js" "string js"

text \<open>
  \<open>noOneRepositoryErrorMessage\<close>: the message of \<open>setRepository\<close> interpolates the
  requested repository and the level; only these two are kept.
\<close>

datatype message = NoMessage | NoRepositoryAvailable string string

text \<open>Which emitter a pending \<open>getValidOccurence\<close> subscription will fire.\<close>

datatype emitter = EmitNew | EmitUpdated

text \<open>
  The component: its \<open>@Input\<close> options, its fields, the two form controls, the heap of
  candidate records, the log of actions, and the state of the third subscription
  (the \<open>debounceTime / distinctUntilChanged / switchMap / catchError\<close> chain):
  whether it is still subscribed, the last value \<open>distinctUntilChanged\<close> let through,
  the inner observable \<open>switchMap\<close> is subscribed to, the number of lookups issued so
  far, and the outstanding \<open>getValidOccurence\<close> subscriptions.
\<close>

record component =
  allowEmptyRepository :: bool
  allowFreeValueIfNoResults :: bool
  autoComplete :: bool
  autoResetWhenSelected :: bool
  autoSelectValueIfOnlyOneResult :: bool
  attachRawData :: bool
  restoreRepositoryValueAfterEditing :: bool
  level :: string
  placeholder :: string
  noOneRepositoryError :: bool
  noOneRepositoryErrorMessage :: message
  dataFromRepo :: "ref list"
  listRepo :: "repo_descriptor list"
  currentRepository :: string
  lastUsedRepositoryValue :: string
  lastPlaceholderValue :: string
  isSearching :: bool
  isLoading :: bool
  isEditingData :: bool
  editingOccurenceId :: "int js"
  inputValue :: input_value
  inputTouched :: bool
  inputDirty :: bool
  repositoryControl :: string
  heap :: "RepositoryItemModel list"
  trace :: "action list"
  subscribed :: bool
  lastDistinct :: "input_value option"
  activeLookup :: "nat option"
  nextLookup :: nat
  pendingValid :: "(ref \<times> emitter) list"

section \<open>setRepository\<close>

text \<open>
  The body of the \<open>forEach\<close> of \<open>setRepository\<close>: on a matching entry the flag is
  raised, \<open>currentRepository\<close> is set and the repository control receives the entry's
  value (\<open>emitEvent: false\<close>, so no subscriber runs).
\<close>

definition visit :: "string \<Rightarrow> repo_descriptor \<Rightarrow> bool \<times> component \<Rightarrow> bool \<times> component" where
  "visit repo_id repo acc =
     (if repo_value repo = repo_id
      then (True, (snd acc)\<lparr>currentRepository := repo_id, repositoryControl := repo_value repo\<rparr>)
      else acc)"

text \<open>
  \<open>setRepository\<close> calls itself on a miss, with no bound on the depth, so it is a
  partial function: \<open>None\<close> is the call that does not return. In JavaScript such a
  call exhausts the stack and ends in a \<open>RangeError\<close>.
\<close>

partial_function (option) setRepository :: "string \<Rightarrow> component \<Rightarrow> component option" where
  "setRepository repo_id s =
     (if fst (fold (visit repo_id) (listRepo s) (False, s))
      then Some (snd (fold (visit repo_id) (listRepo s) (False, s)))
      else if allowEmptyRepository s then setRepository ''otherunknown'' s
      else if length (listRepo s) > 0 then setRepository (repo_value (listRepo s ! 0)) s
      else Some (s\<lparr>noOneRepositoryError := True,
                   noOneRepositoryErrorMessage := NoRepositoryAvailable repo_id (level s)\<rparr>))"

declare setRepository.simps [code]

text \<open>The state a hit leaves behind.\<close>

definition selected :: "string \<Rightarrow> component \<Rightarrow> component" where
  "selected repo_id s = s\<lparr>currentRepository := repo_id, repositoryControl := repo_id\<rparr>"

section \<open>Emitting, resetting, stopping an edit session\<close>

text \<open>Appends one action to the log: an emitter's \<open>next\<close>, or a call on a collaborator.\<close>

definition emit :: "action \<Rightarrow> component \<Rightarrow> component" where
  "emit a s = s\<lparr>trace := trace s @ [a]\<rparr>"

text \<open>
  \<open>resetInput\<close>: nothing while editing; otherwise the input control is reset to the
  empty string without an event, untouched and pristine.
\<close>

definition resetInput :: "component \<Rightarrow> component" where
  "resetInput s =
     (if isEditingData s then s
      else s\<lparr>inputValue := Str '''', inputTouched := False, inputDirty := False\<rparr>)"

text \<open>
  \<open>stopEditingTaxo\<close>: clears the editing flags, restores the placeholder, optionally
  restores the repository through \<open>setRepository\<close>, closes the panel and clears the
  candidate buffer. It returns only if \<open>setRepository\<close> does.
\<close>

definition stopEditingTaxo :: "component \<Rightarrow> component option" where
  "stopEditingTaxo s =
     (case (if restoreRepositoryValueAfterEditing s
            then setRepository (lastUsedRepositoryValue s)
                   (s\<lparr>isEditingData := False, editingOccurenceId := Null,
                      placeholder := lastPlaceholderValue s\<rparr>)
            else Some (s\<lparr>isEditingData := False, editingOccurenceId := Null,
                         placeholder := lastPlaceholderValue s\<rparr>)) of
        None \<Rightarrow> None
      | Some s1 \<Rightarrow> Some ((emit ClosePanel s1)\<lparr>dataFromRepo := []\<rparr>))"

section \<open>Finalization: checkAndEmitNewData and checkAndEmitUpdatedData\<close>

text \<open>
  \<open>checkAndEmitNewData\<close>. A synonym without a valid occurrence asks the service for
  it and subscribes: the emission happens in the callback, when the service answers.
  A synonym that carries one is emitted as it is. A record that is not a synonym gets
  \<open>Object.assign({}, data)\<close> as its valid occurrence: a new object holding the
  record's fields as they are at that moment. Any other value of \<open>isSynonym\<close> emits
  nothing.
\<close>

definition checkAndEmitNewData :: "ref \<Rightarrow> component \<Rightarrow> component" where
  "checkAndEmitNewData d s =
     (if isSynonym (heap s ! d) = Val True \<and> \<not> isDefined (validOccurence (heap s ! d)) then
        (emit (GetValidOccurence (repository (heap s ! d)) (idNomen (heap s ! d)) (idTaxo (heap s ! d))) s)
          \<lparr>pendingValid := pendingValid s @ [(d, EmitNew)]\<rparr>
      else if isSynonym (heap s ! d) = Val True \<and> isDefined (validOccurence (heap s ! d)) then
        emit (NewData (Val d)) s
      else if isSynonym (heap s ! d) = Val False then
        emit (NewData (Val d))
          (s\<lparr>heap := (heap s @ [heap s ! d])
                       [d := (heap s ! d)\<lparr>validOccurence := Val (length (heap s))\<rparr>]\<rparr>)
      else s)"

text \<open>\<open>checkAndEmitUpdatedData\<close>: every synonym is looked up, whatever it carries.\<close>

definition checkAndEmitUpdatedData :: "ref \<Rightarrow> component \<Rightarrow> component" where
  "checkAndEmitUpdatedData d s =
     (if isSynonym (heap s ! d) = Val True then
        (emit (GetValidOccurence (repository (heap s ! d)) (idNomen (heap s ! d)) (idTaxo (heap s ! d))) s)
          \<lparr>pendingValid := pendingValid s @ [(d, EmitUpdated)]\<rparr>
      else if isSynonym (heap s ! d) = Val False then
        emit (UpdatedData d)
          (s\<lparr>heap := (heap s @ [heap s ! d])
                       [d := (heap s ! d)\<lparr>validOccurence := Val (length (heap s))\<rparr>]\<rparr>)
      else s)"

text \<open>
  The callback subscribed to \<open>getValidOccurence\<close>, run when the service answers the
  \<open>i\<close>-th subscription with \<open>validOcc\<close> (the result of \<open>standardizeValidOccurence\<close>,
  a new object): it is stamped with the record's repository, attached to the record,
  and the record is emitted.
\<close>

definition validOccurenceResponse :: "nat \<Rightarrow> RepositoryItemModel \<Rightarrow> component \<Rightarrow> component" where
  "validOccurenceResponse i validOcc s =
     (if i < length (pendingValid s) then
        emit (case snd (pendingValid s ! i) of
                EmitNew \<Rightarrow> NewData (Val (fst (pendingValid s ! i)))
              | EmitUpdated \<Rightarrow> UpdatedData (fst (pendingValid s ! i)))
          (s\<lparr>heap := (heap s @ [validOcc\<lparr>repository := repository (heap s ! fst (pendingValid s ! i))\<rparr>])
                       [fst (pendingValid s ! i) :=
                          (heap s ! fst (pendingValid s ! i))\<lparr>validOccurence := Val (length (heap s))\<rparr>]\<rparr>)
      else s)"

section \<open>The third subscription of ngOnInit\<close>

text \<open>
  \<open>results !== []\<close>: the literal allocates a new array and \<open>!==\<close> compares
  objects by identity, so the test holds for every \<open>results\<close>, empty or not.
\<close>

definition differs_from_new_array :: "ref list \<Rightarrow> bool" where
  "differs_from_new_array results = True"

text \<open>
  The \<open>next\<close> handler given to \<open>subscribe\<close>. \<open>panelOpen\<close> is what the autocomplete
  trigger reports when the handler reads \<open>this.autocomplete.panelOpen\<close>.
\<close>

definition subscription3_next :: "bool \<Rightarrow> ref list \<Rightarrow> component \<Rightarrow> component option" where
  "subscription3_next panelOpen results s =
     (if differs_from_new_array results then
        (case (if autoComplete s \<and> autoSelectValueIfOnlyOneResult s \<and> length results = 1 then
                 (if isEditingData s then
                    stopEditingTaxo (checkAndEmitUpdatedData (results ! 0)
                      ((emit OpenPanel s)\<lparr>dataFromRepo := results, isLoading := False, isSearching := False\<rparr>))
                  else
                    Some (checkAndEmitNewData (results ! 0)
                      ((emit OpenPanel s)\<lparr>dataFromRepo := results, isLoading := False, isSearching := False\<rparr>)))
               else if autoComplete s \<and> length results > 1 \<and> isEditingData s then
                 Some (if \<not> panelOpen
                       then emit OpenPanel
                         ((emit OpenPanel s)\<lparr>dataFromRepo := results, isLoading := False, isSearching := False\<rparr>)
                       else (emit OpenPanel s)\<lparr>dataFromRepo := results, isLoading := False, isSearching := False\<rparr>)
               else
                 Some ((emit OpenPanel s)\<lparr>dataFromRepo := results, isLoading := False, isSearching := False\<rparr>)) of
           None \<Rightarrow> None
         | Some s1 \<Rightarrow>
             Some (if \<not> autoComplete s1 then emit (AllResults results) (s1\<lparr>dataFromRepo := []\<rparr>) else s1))
      else Some s)"

text \<open>The \<open>error\<close> handler given to \<open>subscribe\<close>.\<close>

definition subscription3_error :: "string \<Rightarrow> component \<Rightarrow> component" where
  "subscription3_error e s = emit (HttpError e) s"

text \<open>\<open>value.replace(/ /g, '')\<close>: every space character (U+0020) is removed.\<close>

definition replace_spaces :: "string \<Rightarrow> string" where
  "replace_spaces txt = filter (\<lambda>c. c \<noteq> CHR '' '') txt"

text \<open>What the function given to \<open>switchMap\<close> returns: \<open>of([])\<close> or the service's observable.\<close>

datatype inner = OfEmpty | ServiceLookup

text \<open>
  The function given to \<open>switchMap\<close>, which classifies a debounced value. A string,
  when the repository is not \<open>otherunknown\<close>: made of spaces only, it clears the
  buffer and returns \<open>of([])\<close>; otherwise \<open>isLoading\<close> is raised and the service is
  called. An object: it is stamped, finalized, and \<open>of([])\<close> is returned. A string
  under \<open>otherunknown\<close>: \<open>of([])\<close>.
\<close>

definition project :: "input_value \<Rightarrow> component \<Rightarrow> (component \<times> inner) option" where
  "project v s =
     (case v of
        Str txt \<Rightarrow>
          (if currentRepository s \<noteq> ''otherunknown'' then
             (if replace_spaces txt = '''' then Some (s\<lparr>dataFromRepo := []\<rparr>, OfEmpty)
              else Some (emit (FindDataFromRepo (currentRepository s) txt (attachRawData s))
                           (s\<lparr>isLoading := True\<rparr>), ServiceLookup))
           else Some (s, OfEmpty))
      | Obj r \<Rightarrow>
          (case (if \<not> isEditingData s then
                   Some (checkAndEmitNewData r
                     (s\<lparr>heap := (heap s)[r := (heap s ! r)\<lparr>repository := Val (currentRepository s)\<rparr>],
                        dataFromRepo := []\<rparr>))
                 else
                   stopEditingTaxo (checkAndEmitUpdatedData r
                     (s\<lparr>heap := (heap s)[r := (heap s ! r)\<lparr>repository := Val (currentRepository s),
                                                            occurenceId := editingOccurenceId s\<rparr>],
                        dataFromRepo := []\<rparr>))) of
             None \<Rightarrow> None
           | Some s1 \<Rightarrow>
               Some (if autoResetWhenSelected s1
                     then resetInput (s1\<lparr>dataFromRepo := [], isLoading := False, isSearching := False\<rparr>)
                     else s1\<lparr>dataFromRepo := [], isLoading := False, isSearching := False\<rparr>,
                     OfEmpty)))"

text \<open>
  A value leaving \<open>debounceTime\<close>. \<open>distinctUntilChanged\<close> drops it when it is the
  value it let through last (\<open>===\<close>: equal strings, or the same object). Otherwise
  \<open>switchMap\<close> runs the function above, unsubscribes from the inner observable it
  was subscribed to, and subscribes to the new one: \<open>of([])\<close> delivers \<open>[]\<close> to the
  \<open>next\<close> handler at once and completes; the service's observable stays subscribed
  until it is replaced. Once the chain has completed nothing is processed.
\<close>

definition debounced :: "input_value \<Rightarrow> component \<Rightarrow> component option" where
  "debounced v s =
     (if \<not> subscribed s then Some s
      else if lastDistinct s = Some v then Some s
      else (case project v (s\<lparr>lastDistinct := Some v\<rparr>) of
              None \<Rightarrow> None
            | Some (s1, OfEmpty) \<Rightarrow> subscription3_next False [] (s1\<lparr>activeLookup := None\<rparr>)
            | Some (s1, ServiceLookup) \<Rightarrow>
                Some (s1\<lparr>activeLookup := Some (nextLookup s1), nextLookup := Suc (nextLookup s1)\<rparr>)))"

text \<open>
  The observable of lookup number \<open>k\<close> emits \<open>recs\<close>. The records are new objects.
  Only the inner observable \<open>switchMap\<close> is subscribed to reaches the \<open>next\<close>
  handler.
\<close>

definition lookupResponse :: "nat \<Rightarrow> RepositoryItemModel list \<Rightarrow> bool \<Rightarrow> component \<Rightarrow> component option" where
  "lookupResponse k recs panelOpen s =
     (if subscribed s \<and> activeLookup s = Some k
      then subscription3_next panelOpen [length (heap s) ..< length (heap s) + length recs]
             (s\<lparr>heap := heap s @ recs\<rparr>)
      else Some s)"

text \<open>
  The observable of lookup number \<open>k\<close> fails. \<open>switchMap\<close> passes the error on;
  \<open>catchError(error => of([]))\<close>, which sits after \<open>switchMap\<close> on the outer chain,
  replaces the whole chain by \<open>of([])\<close>: the \<open>next\<close> handler receives \<open>[]\<close>, then
  the chain completes. The \<open>error\<close> handler sits behind \<open>catchError\<close> and receives
  nothing.
\<close>

definition lookupFailure :: "nat \<Rightarrow> string \<Rightarrow> component \<Rightarrow> component option" where
  "lookupFailure k e s =
     (if subscribed s \<and> activeLookup s = Some k
      then (case subscription3_next False [] (s\<lparr>activeLookup := None\<rparr>) of
              None \<Rightarrow> None
            | Some s1 \<Rightarrow> Some (s1\<lparr>subscribed := False\<rparr>))
      else Some s)"

text \<open>
  A raw change of the input control: the control holds the new value and the first
  watcher raises \<open>isSearching\<close>.
\<close>

definition valueChanges :: "input_value \<Rightarrow> component \<Rightarrow> component" where
  "valueChanges v s = s\<lparr>inputValue := v, isSearching := True\<rparr>"

section \<open>keyDownEnter\<close>

text \<open>
  \<open>rimResponse\<close> is allocated before the editing test; while editing, the record
  emitted is a second literal, which has no \<open>isSynonym\<close> and no \<open>validOccurence\<close>.
\<close>

definition keyDownEnter :: "component \<Rightarrow> component option" where
  "keyDownEnter s =
     (if (allowEmptyRepository s \<and> currentRepository s = ''otherunknown'')
         \<or> (currentRepository s \<noteq> ''otherunknown'' \<and> allowFreeValueIfNoResults s
             \<and> length (dataFromRepo s) = 0)
      then
        (case inputValue s of
           Obj r \<Rightarrow> Some s
         | Str txt \<Rightarrow>
             (if replace_spaces txt = '''' then Some (emit (NewData Null) s)
              else
                (case (if isEditingData s then
                         stopEditingTaxo (emit (UpdatedData (Suc (length (heap s))))
                           (s\<lparr>dataFromRepo := [],
                              heap := heap s @
                                [\<lparr>occurenceId = Null, repository = Null, idNomen = Null, idTaxo = Null,
                                  name = Null, author = Null, isSynonym = Val False, validOccurence = Null\<rparr>,
                                 \<lparr>occurenceId = editingOccurenceId s, repository = Val ''otherunknown'',
                                  idNomen = Null, idTaxo = Null, name = Val txt, author = Null,
                                  isSynonym = Undefined, validOccurence = Undefined\<rparr>]\<rparr>))
                       else
                         Some (emit (NewData (Val (length (heap s))))
                           (s\<lparr>dataFromRepo := [],
                              heap := heap s @
                                [\<lparr>occurenceId = Null, repository = Val ''otherunknown'', idNomen = Null,
                                  idTaxo = Null, name = Val txt, author = Null,
                                  isSynonym = Val False, validOccurence = Null\<rparr>]\<rparr>))) of
                   None \<Rightarrow> None
                 | Some s1 \<Rightarrow> Some (if autoResetWhenSelected s1 then resetInput s1 else s1))))
      else Some s)"

section \<open>Events\<close>

text \<open>
  What can happen to the component once \<open>ngOnInit\<close> has subscribed: the input
  changes, \<open>debounceTime\<close> releases a value, a lookup answers or fails, the service
  answers a \<open>getValidOccurence\<close>, the user presses Enter.
\<close>

datatype event =
    ValueChanges input_value
  | Debounced input_value
  | LookupResponse nat "RepositoryItemModel list" bool
  | LookupFailure nat string
  | ValidOccurenceResponse nat RepositoryItemModel
  | KeyDownEnter

fun step :: "event \<Rightarrow> component \<Rightarrow> component option" where
  "step (ValueChanges v) s = Some (valueChanges v s)"
| "step (Debounced v) s = debounced v s"
| "step (LookupResponse k recs panelOpen) s = lookupResponse k recs panelOpen s"
| "step (LookupFailure k e) s = lookupFailure k e s"
| "step (ValidOccurenceResponse i validOcc) s = Some (validOccurenceResponse i validOcc s)"
| "step KeyDownEnter s = keyDownEnter s"

fun run :: "event list \<Rightarrow> component \<Rightarrow> component option" where
  "run [] s = Some s"
| "run (e # es) s = (case step e s of None \<Rightarrow> None | Some s1 \<Rightarrow> run es s1)"

text \<open>
  The component as the class declares it, before \<open>initRepo\<close> has run: every
  field and option has its initializer's value; a string field declared without one
  is the empty string.
\<close>

definition initial :: component where
  "initial = \<lparr>
     allowEmptyRepository = True,
     allowFreeValueIfNoResults = True,
     autoComplete = True,
     autoResetWhenSelected = True,
     autoSelectValueIfOnlyOneResult = False,
     attachRawData = False,
     restoreRepositoryValueAfterEditing = False,
     level = ''idiotaxon'',
     placeholder = '''',
     noOneRepositoryError = False,
     noOneRepositoryErrorMessage = NoMessage,
     dataFromRepo = [],
     listRepo = [\<lparr>repo_value = '''', repo_label = ''''\<rparr>],
     currentRepository = '''',
     lastUsedRepositoryValue = '''',
     lastPlaceholderValue = '''',
     isSearching = False,
     isLoading = False,
     isEditingData = False,
     editingOccurenceId = Undefined,
     inputValue = Str '''',
     inputTouched = False,
     inputDirty = False,
     repositoryControl = '''',
     heap = [],
     trace = [],
     subscribed = True,
     lastDistinct = None,
     activeLookup = None,
     nextLookup = 0,
     pendingValid = []\<rparr>"

text \<open>
  A component in use: the catalog holds \<open>bdtfx\<close> and, free entry being allowed,
  \<open>otherunknown\<close>; \<open>bdtfx\<close> is the current repository.
\<close>

definition ready :: component where
  "ready = initial\<lparr>
     listRepo := [\<lparr>repo_value = ''bdtfx'', repo_label = ''BDTFX''\<rparr>,
                  \<lparr>repo_value = ''otherunknown'', repo_label = ''Autre/inconnu''\<rparr>],
     currentRepository := ''bdtfx'',
     repositoryControl := ''bdtfx''\<rparr>"

text \<open>
  Candidates as the service returns them: an accepted name, a synonym without its
  valid occurrence, and the valid occurrence the service returns for it.
\<close>

definition rosa_canina :: RepositoryItemModel where
  "rosa_canina = \<lparr>occurenceId = Null, repository = Val ''bdtfx'', idNomen = Val ''101'',
     idTaxo = Val ''201'', name = Val ''Rosa canina'', author = Val ''L.'',
     isSynonym = Val False, validOccurence = Null\<rparr>"

definition rosa_glauca :: RepositoryItemModel where
  "rosa_glauca = \<lparr>occurenceId = Null, repository = Val ''bdtfx'', idNomen = Val ''102'',
     idTaxo = Val ''202'', name = Val ''Rosa glauca'', author = Val ''Vill.'',
     isSynonym = Val True, validOccurence = Undefined\<rparr>"

definition rosa_dumalis :: RepositoryItemModel where
  "rosa_dumalis = \<lparr>occurenceId = Null, repository = Undefined, idNomen = Val ''103'',
     idTaxo = Val ''202'', name = Val ''Rosa dumalis'', author = Val ''Bechst.'',
     isSynonym = Val False, validOccurence = Null\<rparr>"

text \<open>The component above while occurrence 7 is being edited.\<close>

definition editing :: component where
  "editing = ready\<lparr>isEditingData := True, editingOccurenceId := Val 7\<rparr>"

text \<open>The calls of \<open>findDataFromRepo\<close> in a log.\<close>

fun is_lookup_call :: "action \<Rightarrow> bool" where
  "is_lookup_call (FindDataFromRepo _ _ _) = True"
| "is_lookup_call _ = False"

section \<open>Notions used to state the properties\<close>

text \<open>
  The state of the operator chain of the third subscription: is it subscribed, the
  value \<open>distinctUntilChanged\<close> remembers, the inner observable \<open>switchMap\<close>
  listens to, and the number of lookups issued.
\<close>

definition chain :: "component \<Rightarrow> bool \<times> input_value option \<times> nat option \<times> nat" where
  "chain s = (subscribed s, lastDistinct s, activeLookup s, nextLookup s)"

text \<open>
  Lookups are numbered in the order they are issued, from 0, and \<open>nextLookup\<close> is
  the number the next one will get. The inner observable \<open>switchMap\<close> listens to,
  if any, is that of the lookup issued last.
\<close>

definition current_is_latest :: "component \<Rightarrow> bool" where
  "current_is_latest s =
     (case activeLookup s of None \<Rightarrow> True | Some k \<Rightarrow> Suc k = nextLookup s)"

text \<open>
  The calls of \<open>findDataFromRepo\<close> made so far, in order. The lookups are numbered
  as they are issued when the number of calls is the number the next lookup will
  get: lookup \<open>k\<close> is then the call at position \<open>k\<close>.
\<close>

definition lookup_calls :: "component \<Rightarrow> action list" where
  "lookup_calls s = filter is_lookup_call (trace s)"

definition lookups_numbered :: "component \<Rightarrow> bool" where
  "lookups_numbered s = (length (lookup_calls s) = nextLookup s)"

text \<open>
  The user picks candidate \<open>r\<close>: the input control takes the object, which is a raw
  change of its value, and \<open>debounceTime\<close> then releases it.
\<close>

definition commit :: "ref \<Rightarrow> event list" where
  "commit r = [ValueChanges (Obj r), Debounced (Obj r)]"

text \<open>The emissions of \<open>newData\<close> in a log.\<close>

fun is_new_data :: "action \<Rightarrow> bool" where
  "is_new_data (NewData _) = True"
| "is_new_data _ = False"

text \<open>The records a log hands to the host through \<open>newData\<close> and \<open>updatedData\<close>.\<close>

fun final_records :: "action list \<Rightarrow> ref list" where
  "final_records [] = []"
| "final_records (NewData (Val r) # acts) = r # final_records acts"
| "final_records (UpdatedData r # acts) = r # final_records acts"
| "final_records (_ # acts) = final_records acts"

text \<open>What was logged between two states.\<close>

definition emitted_since :: "component \<Rightarrow> component \<Rightarrow> action list" where
  "emitted_since s s' = drop (length (trace s)) (trace s')"

text \<open>
  The invariant of a final record \<open>d\<close> in a heap: a synonym carries a valid
  occurrence; a record that is not a synonym carries a reference to another object,
  which agrees with the record on every field but \<open>validOccurence\<close>.
\<close>

definition resolved :: "RepositoryItemModel list \<Rightarrow> ref \<Rightarrow> bool" where
  "resolved h d =
     (if isSynonym (h ! d) = Val True then isDefined (validOccurence (h ! d))
      else if isSynonym (h ! d) = Val False then
        (case validOccurence (h ! d) of
           Val c \<Rightarrow> c \<noteq> d \<and> c < length h \<and> (h ! c)\<lparr>validOccurence := Val c\<rparr> = h ! d
         | _ \<Rightarrow> False)
      else True)"

text \<open>Writing to the fields of the object behind a reference.\<close>

definition mutate :: "ref \<Rightarrow> (RepositoryItemModel \<Rightarrow> RepositoryItemModel) \<Rightarrow>
    RepositoryItemModel list \<Rightarrow> RepositoryItemModel list" where
  "mutate r f h = h[r := f (h ! r)]"

section \<open>Properties of setRepository\<close>

lemma fold_visit_miss:
  "repo_id \<notin> repo_value ` set rs \<Longrightarrow> fold (visit repo_id) rs acc = acc"
  by (induction rs arbitrary: acc) (auto simp: visit_def)

lemma fold_visit_found:
  "fst acc \<Longrightarrow> snd acc = selected repo_id s0 \<Longrightarrow>
   fold (visit repo_id) rs acc = (True, selected repo_id s0)"
proof (induction rs arbitrary: acc)
  case Nil
  then show ?case by (cases acc) simp
next
  case (Cons r rs)
  have "fst (visit repo_id r acc)" "snd (visit repo_id r acc) = selected repo_id s0"
    using Cons.prems by (auto simp: visit_def selected_def)
  then show ?case using Cons.IH by simp
qed

lemma fold_visit_hit:
  "repo_id \<in> repo_value ` set rs \<Longrightarrow> snd acc = s0 \<or> snd acc = selected repo_id s0 \<Longrightarrow>
   fold (visit repo_id) rs acc = (True, selected repo_id s0)"
proof (induction rs arbitrary: acc)
  case Nil
  then show ?case by simp
next
  case (Cons r rs)
  show ?case
  proof (cases "repo_value r = repo_id")
    case True
    have "fst (visit repo_id r acc)" "snd (visit repo_id r acc) = selected repo_id s0"
      using True Cons.prems(2) by (auto simp: visit_def selected_def)
    then show ?thesis using fold_visit_found by simp
  next
    case False
    then have "visit repo_id r acc = acc" by (simp add: visit_def)
    moreover have "repo_id \<in> repo_value ` set rs" using False Cons.prems(1) by auto
    ultimately show ?thesis using Cons.IH Cons.prems(2) by simp
  qed
qed

lemma setRepository_hit:
  "repo_id \<in> repo_value ` set (listRepo s) \<Longrightarrow> setRepository repo_id s = Some (selected repo_id s)"
  by (subst setRepository.simps) (simp add: fold_visit_hit [where ?s0.0 = s])

lemma setRepository_miss:
  "repo_id \<notin> repo_value ` set (listRepo s) \<Longrightarrow>
   setRepository repo_id s =
     (if allowEmptyRepository s then setRepository ''otherunknown'' s
      else if length (listRepo s) > 0 then setRepository (repo_value (listRepo s ! 0)) s
      else Some (s\<lparr>noOneRepositoryError := True,
                   noOneRepositoryErrorMessage := NoRepositoryAvailable repo_id (level s)\<rparr>))"
  by (subst setRepository.simps) (simp add: fold_visit_miss)

lemma setRepository_no_result:
  assumes "setRepository repo_id s = Some s'"
  shows "\<not> (repo_id = ''otherunknown'' \<and> allowEmptyRepository s \<and>
      ''otherunknown'' \<notin> repo_value ` set (listRepo s))"
proof (rule setRepository.raw_induct [OF _ assms])
  fix f repo_id s s'
  assume IH: "\<And>r t t'. f r t = Some t' \<Longrightarrow>
      \<not> (r = ''otherunknown'' \<and> allowEmptyRepository t \<and>
      ''otherunknown'' \<notin> repo_value ` set (listRepo t))"
    and unfolded: "(if fst (fold (visit repo_id) (listRepo s) (False, s))
      then Some (snd (fold (visit repo_id) (listRepo s) (False, s)))
      else if allowEmptyRepository s then f ''otherunknown'' s
      else if length (listRepo s) > 0 then f (repo_value (listRepo s ! 0)) s
      else Some (s\<lparr>noOneRepositoryError := True,
                   noOneRepositoryErrorMessage := NoRepositoryAvailable repo_id (level s)\<rparr>)) = Some s'"
  show "\<not> (repo_id = ''otherunknown'' \<and> allowEmptyRepository s \<and>
      ''otherunknown'' \<notin> repo_value ` set (listRepo s))"
  proof
    assume loop: "repo_id = ''otherunknown'' \<and> allowEmptyRepository s \<and>
      ''otherunknown'' \<notin> repo_value ` set (listRepo s)"
    then have "f ''otherunknown'' s = Some s'"
      using unfolded by (simp add: fold_visit_miss)
    then show False using IH loop by blast
  qed
qed

lemma setRepository_loops:
  "allowEmptyRepository s \<Longrightarrow> ''otherunknown'' \<notin> repo_value ` set (listRepo s) \<Longrightarrow>
   setRepository ''otherunknown'' s = None"
  using setRepository_no_result [of "''otherunknown''" s]
  by (cases "setRepository ''otherunknown'' s") auto

lemma first_entry_listed: "rs \<noteq> [] \<Longrightarrow> repo_value (rs ! 0) \<in> repo_value ` set rs"
  by (cases rs) auto

text \<open>
  Where free entry is not allowed, or \<open>otherunknown\<close> is in the catalog,
  \<open>setRepository\<close> returns: on a hit the repository is selected; on a miss
  \<open>otherunknown\<close> is selected when free entry is allowed, otherwise the catalog's
  first entry; with an empty catalog the error flag is set.
\<close>

lemma setRepository_returns:
  "\<not> allowEmptyRepository s \<or> ''otherunknown'' \<in> repo_value ` set (listRepo s) \<Longrightarrow>
   setRepository repo_id s =
     Some (if repo_id \<in> repo_value ` set (listRepo s) then selected repo_id s
           else if allowEmptyRepository s then selected ''otherunknown'' s
           else if length (listRepo s) > 0 then selected (repo_value (listRepo s ! 0)) s
           else s\<lparr>noOneRepositoryError := True,
                   noOneRepositoryErrorMessage := NoRepositoryAvailable repo_id (level s)\<rparr>)"
proof (cases "repo_id \<in> repo_value ` set (listRepo s)")
  case True
  then show ?thesis by (simp add: setRepository_hit)
next
  case miss: False
  assume consistent: "\<not> allowEmptyRepository s \<or> ''otherunknown'' \<in> repo_value ` set (listRepo s)"
  show ?thesis
  proof (cases "allowEmptyRepository s")
    case True
    then have "''otherunknown'' \<in> repo_value ` set (listRepo s)"
      using consistent by blast
    then show ?thesis
      using miss True by (simp add: setRepository_miss setRepository_hit)
  next
    case False
    show ?thesis
    proof (cases "listRepo s = []")
      case True
      then show ?thesis using miss False by (simp add: setRepository_miss)
    next
      case nonempty: False
      then have "repo_value (listRepo s ! 0) \<in> repo_value ` set (listRepo s)"
        by (rule first_entry_listed)
      then show ?thesis
        using miss False nonempty by (simp add: setRepository_miss setRepository_hit)
    qed
  qed
qed

text \<open>
  C8 fails on the code. With the field values the class starts with (free entry
  allowed, a catalog of one entry whose value is the empty string), as when the
  \<open>updateData\<close> setter starts an edit before \<open>ngOnInit\<close>, the call for \<open>bdtfx\<close>
  misses, calls itself for \<open>otherunknown\<close>, misses again, and so on: it does not
  return, and no error flag is set. The branch for a catalog without free entry
  guards its recursion (\<open>availableRepo.length > 0\<close>); this one has no guard.
\<close>

theorem setRepository_never_returns: "setRepository ''bdtfx'' initial = None"
proof -
  have allow: "allowEmptyRepository initial" by (simp add: initial_def)
  have absent: "''otherunknown'' \<notin> repo_value ` set (listRepo initial)"
    by (simp add: initial_def)
  have "''bdtfx'' \<notin> repo_value ` set (listRepo initial)"
    by (simp add: initial_def)
  then have "setRepository ''bdtfx'' initial = setRepository ''otherunknown'' initial"
    using allow by (simp add: setRepository_miss)
  then show ?thesis using setRepository_loops [OF allow absent] by simp
qed

section \<open>What a step leaves alone\<close>

text \<open>
  None of the component's methods touches the operator chain: only the chain's own
  steps (\<open>debounced\<close>, \<open>lookupFailure\<close>) change it.
\<close>

lemma fold_visit_cases:
  "fold (visit repo_id) rs (False, s) = (False, s) \<or>
   fold (visit repo_id) rs (False, s) = (True, selected repo_id s)"
proof (cases "repo_id \<in> repo_value ` set rs")
  case True
  then show ?thesis using fold_visit_hit [of repo_id rs "(False, s)" s] by simp
next
  case False
  then show ?thesis by (simp add: fold_visit_miss)
qed

lemma chain_updates [simp]:
  "chain (s\<lparr>heap := h\<rparr>) = chain s"
  "chain (s\<lparr>dataFromRepo := d\<rparr>) = chain s"
  "chain (s\<lparr>isLoading := b\<rparr>) = chain s"
  "chain (s\<lparr>isSearching := b\<rparr>) = chain s"
  "chain (s\<lparr>inputValue := v\<rparr>) = chain s"
  "chain (s\<lparr>inputTouched := b\<rparr>) = chain s"
  "chain (s\<lparr>inputDirty := b\<rparr>) = chain s"
  "chain (s\<lparr>trace := tr\<rparr>) = chain s"
  "chain (s\<lparr>pendingValid := p\<rparr>) = chain s"
  "chain (s\<lparr>isEditingData := b\<rparr>) = chain s"
  "chain (s\<lparr>editingOccurenceId := oid\<rparr>) = chain s"
  "chain (s\<lparr>placeholder := txt\<rparr>) = chain s"
  "chain (s\<lparr>currentRepository := txt\<rparr>) = chain s"
  "chain (s\<lparr>repositoryControl := txt\<rparr>) = chain s"
  "chain (s\<lparr>noOneRepositoryError := b\<rparr>) = chain s"
  "chain (s\<lparr>noOneRepositoryErrorMessage := m\<rparr>) = chain s"
  by (simp_all add: chain_def)

lemma chain_emit [simp]: "chain (emit a s) = chain s"
  by (simp add: emit_def)

lemma chain_selected [simp]: "chain (selected r s) = chain s"
  by (simp add: selected_def)

lemma chain_resetInput [simp]: "chain (resetInput s) = chain s"
  by (simp add: resetInput_def)

lemma chain_checkAndEmitNewData [simp]: "chain (checkAndEmitNewData d s) = chain s"
  by (simp add: checkAndEmitNewData_def)

lemma chain_checkAndEmitUpdatedData [simp]: "chain (checkAndEmitUpdatedData d s) = chain s"
  by (simp add: checkAndEmitUpdatedData_def)

lemma chain_validOccurenceResponse [simp]: "chain (validOccurenceResponse i vo s) = chain s"
  by (simp add: validOccurenceResponse_def)

lemma chain_valueChanges [simp]: "chain (valueChanges v s) = chain s"
  by (simp add: valueChanges_def)

lemma chain_setRepository:
  assumes "setRepository repo_id s = Some s'"
  shows "chain s' = chain s"
proof (rule setRepository.raw_induct [OF _ assms])
  fix f repo_id s s'
  assume IH: "\<And>r t t'. f r t = Some t' \<Longrightarrow> chain t' = chain t"
    and unfolded: "(if fst (fold (visit repo_id) (listRepo s) (False, s))
      then Some (snd (fold (visit repo_id) (listRepo s) (False, s)))
      else if allowEmptyRepository s then f ''otherunknown'' s
      else if length (listRepo s) > 0 then f (repo_value (listRepo s ! 0)) s
      else Some (s\<lparr>noOneRepositoryError := True,
                   noOneRepositoryErrorMessage := NoRepositoryAvailable repo_id (level s)\<rparr>)) = Some s'"
  from fold_visit_cases [of repo_id "listRepo s" s] show "chain s' = chain s"
  proof
    assume "fold (visit repo_id) (listRepo s) (False, s) = (False, s)"
    then show ?thesis using unfolded IH by (auto split: if_splits)
  next
    assume "fold (visit repo_id) (listRepo s) (False, s) = (True, selected repo_id s)"
    then show ?thesis using unfolded by auto
  qed
qed

lemma chain_stopEditingTaxo: "stopEditingTaxo s = Some s' \<Longrightarrow> chain s' = chain s"
  by (auto simp: stopEditingTaxo_def split: if_splits option.splits
      dest!: chain_setRepository)

lemma chain_subscription3_next: "subscription3_next po rs s = Some s' \<Longrightarrow> chain s' = chain s"
  unfolding subscription3_next_def
  by (auto simp: differs_from_new_array_def split: if_splits option.splits
      dest!: chain_stopEditingTaxo)

lemma chain_project: "project v s = Some (s', i) \<Longrightarrow> chain s' = chain s"
  unfolding project_def
  by (auto split: input_value.splits if_splits option.splits dest!: chain_stopEditingTaxo)

lemma chain_keyDownEnter: "keyDownEnter s = Some s' \<Longrightarrow> chain s' = chain s"
  unfolding keyDownEnter_def
  by (auto split: input_value.splits if_splits option.splits dest!: chain_stopEditingTaxo)

section \<open>Evaluating the model\<close>

lemma replace_spaces_empty: "replace_spaces txt = [] \<longleftrightarrow> set txt \<subseteq> {CHR '' ''}"
  by (auto simp: replace_spaces_def filter_empty_conv)

lemma subscription3_next_empty:
  "subscription3_next po [] s =
     Some (if autoComplete s
           then (emit OpenPanel s)\<lparr>dataFromRepo := [], isLoading := False, isSearching := False\<rparr>
           else emit (AllResults []) ((emit OpenPanel s)\<lparr>dataFromRepo := [], isLoading := False, isSearching := False\<rparr>))"
  by (simp add: subscription3_next_def differs_from_new_array_def emit_def)

lemma run_snoc: "run (evs @ [e]) s = (case run evs s of None \<Rightarrow> None | Some s1 \<Rightarrow> step e s1)"
  by (induction evs arbitrary: s) (auto split: option.splits)

lemma run_append:
  "run (xs @ ys) s = (case run xs s of None \<Rightarrow> None | Some s1 \<Rightarrow> run ys s1)"
  by (induction xs arbitrary: s) (auto split: option.splits)

lemmas model_defs = ready_def initial_def editing_def rosa_canina_def rosa_glauca_def
  rosa_dumalis_def debounced_def project_def replace_spaces_def subscription3_next_def
  differs_from_new_array_def emit_def lookupResponse_def lookupFailure_def valueChanges_def
  validOccurenceResponse_def checkAndEmitNewData_def checkAndEmitUpdatedData_def
  stopEditingTaxo_def resetInput_def keyDownEnter_def

section \<open>C1: supersession\<close>

lemma latest_chain: "chain s' = chain s \<Longrightarrow> current_is_latest s' = current_is_latest s"
  by (simp add: chain_def current_is_latest_def split: option.splits)

lemma debounced_latest:
  assumes "current_is_latest s" and "debounced v s = Some s'"
  shows "current_is_latest s'"
proof (cases "\<not> subscribed s \<or> lastDistinct s = Some v")
  case True
  then have "s' = s" using assms(2) by (auto simp: debounced_def split: if_splits)
  then show ?thesis using assms(1) by simp
next
  case False
  then obtain s1 i where p: "project v (s\<lparr>lastDistinct := Some v\<rparr>) = Some (s1, i)"
    using assms(2) by (auto simp: debounced_def split: option.splits)
  show ?thesis
  proof (cases i)
    case OfEmpty
    then have "subscription3_next False [] (s1\<lparr>activeLookup := None\<rparr>) = Some s'"
      using False p assms(2) by (simp add: debounced_def)
    then have "chain s' = chain (s1\<lparr>activeLookup := None\<rparr>)"
      by (rule chain_subscription3_next)
    then show ?thesis by (simp add: chain_def current_is_latest_def)
  next
    case ServiceLookup
    then have "s' = s1\<lparr>activeLookup := Some (nextLookup s1), nextLookup := Suc (nextLookup s1)\<rparr>"
      using False p assms(2) by (simp add: debounced_def)
    then show ?thesis by (simp add: current_is_latest_def)
  qed
qed

lemma lookupFailure_latest:
  assumes "current_is_latest s" and "lookupFailure k e s = Some s'"
  shows "current_is_latest s'"
proof (cases "subscribed s \<and> activeLookup s = Some k")
  case True
  then obtain s1 where n: "subscription3_next False [] (s\<lparr>activeLookup := None\<rparr>) = Some s1"
    and s': "s' = s1\<lparr>subscribed := False\<rparr>"
    using assms(2) by (auto simp: lookupFailure_def split: option.splits if_splits)
  have "chain s1 = chain (s\<lparr>activeLookup := None\<rparr>)"
    using n by (rule chain_subscription3_next)
  then show ?thesis using s' by (simp add: chain_def current_is_latest_def)
next
  case False
  then have "s' = s" using assms(2) by (auto simp: lookupFailure_def split: if_splits)
  then show ?thesis using assms(1) by simp
qed

lemma step_latest: "current_is_latest s \<Longrightarrow> step e s = Some s' \<Longrightarrow> current_is_latest s'"
proof (cases e)
  case (ValueChanges v)
  assume "current_is_latest s" "step e s = Some s'"
  then show ?thesis using ValueChanges latest_chain [of s' s] by auto
next
  case (Debounced v)
  assume "current_is_latest s" "step e s = Some s'"
  then show ?thesis using Debounced debounced_latest by simp
next
  case (LookupResponse k recs po)
  assume a: "current_is_latest s" "step e s = Some s'"
  then have "chain s' = chain s"
    using LookupResponse
    by (auto simp: lookupResponse_def split: if_splits dest!: chain_subscription3_next)
  then show ?thesis using a(1) latest_chain [of s' s] by simp
next
  case (LookupFailure k err)
  assume "current_is_latest s" "step e s = Some s'"
  then show ?thesis using LookupFailure lookupFailure_latest by simp
next
  case (ValidOccurenceResponse i vo)
  assume "current_is_latest s" "step e s = Some s'"
  then show ?thesis using ValidOccurenceResponse latest_chain [of s' s] by auto
next
  case KeyDownEnter
  assume a: "current_is_latest s" "step e s = Some s'"
  then have "chain s' = chain s" using KeyDownEnter by (auto dest: chain_keyDownEnter)
  then show ?thesis using a(1) latest_chain [of s' s] by simp
qed

lemma run_latest: "current_is_latest s \<Longrightarrow> run evs s = Some s' \<Longrightarrow> current_is_latest s'"
proof (induction evs arbitrary: s)
  case Nil
  then show ?case by simp
next
  case (Cons e evs)
  then obtain s1 where "step e s = Some s1" "run evs s1 = Some s'"
    by (auto split: option.splits)
  then show ?case using Cons.IH Cons.prems(1) step_latest by blast
qed

text \<open>
  The calls of \<open>findDataFromRepo\<close> and the lookup numbers agree along every run.
\<close>

lemma lookup_calls_updates [simp]:
  "lookup_calls (s\<lparr>heap := h\<rparr>) = lookup_calls s"
  "lookup_calls (s\<lparr>dataFromRepo := d\<rparr>) = lookup_calls s"
  "lookup_calls (s\<lparr>isLoading := b\<rparr>) = lookup_calls s"
  "lookup_calls (s\<lparr>isSearching := b\<rparr>) = lookup_calls s"
  "lookup_calls (s\<lparr>inputValue := v\<rparr>) = lookup_calls s"
  "lookup_calls (s\<lparr>inputTouched := b\<rparr>) = lookup_calls s"
  "lookup_calls (s\<lparr>inputDirty := b\<rparr>) = lookup_calls s"
  "lookup_calls (s\<lparr>pendingValid := p\<rparr>) = lookup_calls s"
  "lookup_calls (s\<lparr>isEditingData := b\<rparr>) = lookup_calls s"
  "lookup_calls (s\<lparr>editingOccurenceId := oid\<rparr>) = lookup_calls s"
  "lookup_calls (s\<lparr>placeholder := txt\<rparr>) = lookup_calls s"
  "lookup_calls (s\<lparr>currentRepository := txt\<rparr>) = lookup_calls s"
  "lookup_calls (s\<lparr>repositoryControl := txt\<rparr>) = lookup_calls s"
  "lookup_calls (s\<lparr>noOneRepositoryError := b\<rparr>) = lookup_calls s"
  "lookup_calls (s\<lparr>noOneRepositoryErrorMessage := m\<rparr>) = lookup_calls s"
  "lookup_calls (s\<lparr>lastDistinct := ld\<rparr>) = lookup_calls s"
  "lookup_calls (s\<lparr>activeLookup := al\<rparr>) = lookup_calls s"
  "lookup_calls (s\<lparr>nextLookup := n\<rparr>) = lookup_calls s"
  "lookup_calls (s\<lparr>subscribed := b\<rparr>) = lookup_calls s"
  by (simp_all add: lookup_calls_def)

lemma lookup_calls_emit [simp]:
  "lookup_calls (emit a s) = (if is_lookup_call a then lookup_calls s @ [a] else lookup_calls s)"
  by (simp add: lookup_calls_def emit_def)

lemma lookup_calls_selected [simp]: "lookup_calls (selected r s) = lookup_calls s"
  by (simp add: selected_def)

lemma lookup_calls_resetInput [simp]: "lookup_calls (resetInput s) = lookup_calls s"
  by (simp add: resetInput_def)

lemma lookup_calls_checkAndEmitNewData [simp]:
  "lookup_calls (checkAndEmitNewData d s) = lookup_calls s"
  by (simp add: checkAndEmitNewData_def)

lemma lookup_calls_checkAndEmitUpdatedData [simp]:
  "lookup_calls (checkAndEmitUpdatedData d s) = lookup_calls s"
  by (simp add: checkAndEmitUpdatedData_def)

lemma lookup_calls_validOccurenceResponse [simp]:
  "lookup_calls (validOccurenceResponse i vo s) = lookup_calls s"
  by (simp add: validOccurenceResponse_def split: emitter.splits)

lemma lookup_calls_valueChanges [simp]: "lookup_calls (valueChanges v s) = lookup_calls s"
  by (simp add: valueChanges_def)

lemma lookup_calls_setRepository:
  assumes "setRepository repo_id s = Some s'"
  shows "lookup_calls s' = lookup_calls s"
proof (rule setRepository.raw_induct [OF _ assms])
  fix f repo_id s s'
  assume IH: "\<And>r t t'. f r t = Some t' \<Longrightarrow> lookup_calls t' = lookup_calls t"
    and unfolded: "(if fst (fold (visit repo_id) (listRepo s) (False, s))
      then Some (snd (fold (visit repo_id) (listRepo s) (False, s)))
      else if allowEmptyRepository s then f ''otherunknown'' s
      else if length (listRepo s) > 0 then f (repo_value (listRepo s ! 0)) s
      else Some (s\<lparr>noOneRepositoryError := True,
                   noOneRepositoryErrorMessage := NoRepositoryAvailable repo_id (level s)\<rparr>)) = Some s'"
  from fold_visit_cases [of repo_id "listRepo s" s] show "lookup_calls s' = lookup_calls s"
  proof
    assume "fold (visit repo_id) (listRepo s) (False, s) = (False, s)"
    then show ?thesis using unfolded IH by (auto split: if_splits)
  next
    assume "fold (visit repo_id) (listRepo s) (False, s) = (True, selected repo_id s)"
    then show ?thesis using unfolded by auto
  qed
qed

lemma lookup_calls_stopEditingTaxo:
  "stopEditingTaxo s = Some s' \<Longrightarrow> lookup_calls s' = lookup_calls s"
  by (auto simp: stopEditingTaxo_def split: if_splits option.splits
      dest!: lookup_calls_setRepository)

lemma lookup_calls_subscription3_next:
  "subscription3_next po rs s = Some s' \<Longrightarrow> lookup_calls s' = lookup_calls s"
  unfolding subscription3_next_def
  by (auto simp: differs_from_new_array_def split: if_splits option.splits
      dest!: lookup_calls_stopEditingTaxo)

lemma lookup_calls_keyDownEnter:
  "keyDownEnter s = Some s' \<Longrightarrow> lookup_calls s' = lookup_calls s"
  unfolding keyDownEnter_def
  by (auto split: input_value.splits if_splits option.splits dest!: lookup_calls_stopEditingTaxo)

lemma lookup_calls_project:
  "project v s = Some (s', i) \<Longrightarrow>
   length (lookup_calls s') = (case i of OfEmpty \<Rightarrow> length (lookup_calls s)
                               | ServiceLookup \<Rightarrow> Suc (length (lookup_calls s)))"
  unfolding project_def
  by (auto split: input_value.splits if_splits option.splits dest!: lookup_calls_stopEditingTaxo)

lemma debounced_numbered:
  assumes "lookups_numbered s" and "debounced v s = Some s'"
  shows "lookups_numbered s'"
proof (cases "\<not> subscribed s \<or> lastDistinct s = Some v")
  case True
  then have "s' = s" using assms(2) by (auto simp: debounced_def split: if_splits)
  then show ?thesis using assms(1) by simp
next
  case False
  then obtain s1 i where p: "project v (s\<lparr>lastDistinct := Some v\<rparr>) = Some (s1, i)"
    using assms(2) by (auto simp: debounced_def split: option.splits)
  have n1: "nextLookup s1 = nextLookup s"
    using chain_project [OF p] by (simp add: chain_def)
  show ?thesis
  proof (cases i)
    case OfEmpty
    then have nx: "subscription3_next False [] (s1\<lparr>activeLookup := None\<rparr>) = Some s'"
      using False p assms(2) by (simp add: debounced_def)
    have "nextLookup s' = nextLookup s1"
      using chain_subscription3_next [OF nx] by (simp add: chain_def)
    moreover have "lookup_calls s' = lookup_calls s1"
      using lookup_calls_subscription3_next [OF nx] by simp
    ultimately show ?thesis
      using lookup_calls_project [OF p] OfEmpty n1 assms(1) by (simp add: lookups_numbered_def)
  next
    case ServiceLookup
    then have "s' = s1\<lparr>activeLookup := Some (nextLookup s1), nextLookup := Suc (nextLookup s1)\<rparr>"
      using False p assms(2) by (simp add: debounced_def)
    then show ?thesis
      using lookup_calls_project [OF p] ServiceLookup n1 assms(1) by (simp add: lookups_numbered_def)
  qed
qed

lemma numbered_frame:
  "chain s' = chain s \<Longrightarrow> lookup_calls s' = lookup_calls s \<Longrightarrow>
   lookups_numbered s' = lookups_numbered s"
  by (simp add: chain_def lookups_numbered_def)

lemma step_numbered: "lookups_numbered s \<Longrightarrow> step e s = Some s' \<Longrightarrow> lookups_numbered s'"
proof (cases e)
  case (ValueChanges v)
  assume "lookups_numbered s" "step e s = Some s'"
  then show ?thesis using ValueChanges numbered_frame [of s' s] by auto
next
  case (Debounced v)
  assume "lookups_numbered s" "step e s = Some s'"
  then show ?thesis using Debounced debounced_numbered by simp
next
  case (LookupResponse k recs po)
  assume a: "lookups_numbered s" "step e s = Some s'"
  then have "chain s' = chain s"
    using LookupResponse
    by (auto simp: lookupResponse_def split: if_splits dest!: chain_subscription3_next)
  moreover have "lookup_calls s' = lookup_calls s"
    using a LookupResponse
    by (auto simp: lookupResponse_def split: if_splits dest!: lookup_calls_subscription3_next)
  ultimately have "chain s' = chain s" "lookup_calls s' = lookup_calls s" by simp_all
  then show ?thesis using a(1) numbered_frame [of s' s] by simp
next
  case (LookupFailure k err)
  assume a: "lookups_numbered s" "step e s = Some s'"
  then have "nextLookup s' = nextLookup s"
    using LookupFailure
    by (auto simp: lookupFailure_def chain_def split: if_splits option.splits
        dest!: chain_subscription3_next)
  moreover have "lookup_calls s' = lookup_calls s"
    using a LookupFailure
    by (auto simp: lookupFailure_def split: if_splits option.splits
        dest!: lookup_calls_subscription3_next)
  ultimately have "nextLookup s' = nextLookup s" "lookup_calls s' = lookup_calls s" by simp_all
  then show ?thesis using a(1) by (simp add: lookups_numbered_def)
next
  case (ValidOccurenceResponse i vo)
  assume "lookups_numbered s" "step e s = Some s'"
  then show ?thesis using ValidOccurenceResponse numbered_frame [of s' s] by auto
next
  case KeyDownEnter
  assume a: "lookups_numbered s" "step e s = Some s'"
  then have "chain s' = chain s" "lookup_calls s' = lookup_calls s"
    using KeyDownEnter chain_keyDownEnter [of s s'] lookup_calls_keyDownEnter [of s s'] by simp_all
  then show ?thesis using a(1) numbered_frame [of s' s] by simp
qed

lemma run_numbered: "lookups_numbered s \<Longrightarrow> run evs s = Some s' \<Longrightarrow> lookups_numbered s'"
proof (induction evs arbitrary: s)
  case Nil
  then show ?case by simp
next
  case (Cons e evs)
  then obtain s1 where "step e s = Some s1" "run evs s1 = Some s'"
    by (auto split: option.splits)
  then show ?case using Cons.IH Cons.prems(1) step_numbered by blast
qed

text \<open>
  C1. Start from a component with no lookup in flight, and let anything happen: input
  changes, debounced values, lookup responses and failures, valid-occurrence
  responses, Enter keys. In the state reached, a response to the \<open>k\<close>-th call of
  \<open>findDataFromRepo\<close> is discarded unless that call is the last one made: the
  component is left as it is, so the response never reaches \<open>dataFromRepo\<close>.
\<close>

theorem supersession:
  "activeLookup s0 = None \<Longrightarrow> length (lookup_calls s0) = nextLookup s0 \<Longrightarrow>
   run evs s0 = Some s \<Longrightarrow> Suc k \<noteq> length (lookup_calls s) \<Longrightarrow>
   step (LookupResponse k recs po) s = Some s"
proof -
  assume idle: "activeLookup s0 = None" and counted: "length (lookup_calls s0) = nextLookup s0"
    and reached: "run evs s0 = Some s" and stale: "Suc k \<noteq> length (lookup_calls s)"
  have "current_is_latest s"
    using run_latest [of s0 evs s] idle reached by (simp add: current_is_latest_def)
  moreover have "lookups_numbered s"
    using run_numbered [of s0 evs s] counted reached by (simp add: lookups_numbered_def)
  ultimately have "activeLookup s \<noteq> Some k"
    using stale by (auto simp: current_is_latest_def lookups_numbered_def)
  then show ?thesis by (simp add: lookupResponse_def)
qed

text \<open>
  C1 on the lookups for \<open>ro\<close>, \<open>ros\<close>, \<open>rose\<close>: the third has answered
  and its candidate is in the buffer when the answer to the first arrives, and that
  answer is dropped.
\<close>

theorem supersession_witness:
  "activeLookup ready = None \<and> length (lookup_calls ready) = nextLookup ready
   \<and> map_option (\<lambda>s. (lookup_calls s, dataFromRepo s, map name (heap s)))
       (run [Debounced (Str ''ro''), Debounced (Str ''ros''), Debounced (Str ''rose''),
             LookupResponse 2 [rosa_canina] False] ready)
     = Some ([FindDataFromRepo ''bdtfx'' ''ro'' False, FindDataFromRepo ''bdtfx'' ''ros'' False,
              FindDataFromRepo ''bdtfx'' ''rose'' False], [0], [Val ''Rosa canina''])
   \<and> run ([Debounced (Str ''ro''), Debounced (Str ''ros''), Debounced (Str ''rose''),
            LookupResponse 2 [rosa_canina] False] @ [LookupResponse 0 [rosa_glauca] False]) ready
     = run [Debounced (Str ''ro''), Debounced (Str ''ros''), Debounced (Str ''rose''),
            LookupResponse 2 [rosa_canina] False] ready"
proof -
  have idle: "activeLookup ready = None" by (simp add: ready_def initial_def)
  have counted: "length (lookup_calls ready) = nextLookup ready"
    by (simp add: ready_def initial_def lookup_calls_def)
  obtain s where reached: "run [Debounced (Str ''ro''), Debounced (Str ''ros''), Debounced (Str ''rose''),
             LookupResponse 2 [rosa_canina] False] ready = Some s"
    and calls: "lookup_calls s = [FindDataFromRepo ''bdtfx'' ''ro'' False,
             FindDataFromRepo ''bdtfx'' ''ros'' False, FindDataFromRepo ''bdtfx'' ''rose'' False]"
    and shown: "dataFromRepo s = [0]" "map name (heap s) = [Val ''Rosa canina'']"
    by (simp add: model_defs lookup_calls_def)
  have stale: "Suc 0 \<noteq> length (lookup_calls s)" using calls by simp
  have "step (LookupResponse 0 [rosa_glauca] False) s = Some s"
    by (rule supersession [OF idle counted reached stale])
  then show ?thesis using idle counted reached calls shown by (simp only: run_snoc) simp
qed

section \<open>C2: the panel on an empty result set\<close>

text \<open>
  C2 fails on the code. A lookup answers with no candidate; the \<open>next\<close> handler
  tests \<open>results !== []\<close>, which holds for the empty array too, and calls
  \<open>openPanel\<close>: the log ends with \<open>OpenPanel\<close>, where the claim has no panel
  action.
\<close>

theorem empty_results_open_panel:
  "map_option trace (run [Debounced (Str ''Zzz''), LookupResponse 0 [] False] ready)
   = Some [FindDataFromRepo ''bdtfx'' ''Zzz'' False, OpenPanel]"
  by (simp add: model_defs)

section \<open>C3: a failing lookup\<close>

text \<open>
  C3 fails on the code. The lookup for \<open>Rosa\<close> fails: the \<open>next\<close> handler
  receives the empty result set (the panel is opened, the buffer is empty), but no
  \<open>HttpError\<close> is logged, and the chain has completed: the later value \<open>Rose\<close>
  issues no lookup.
\<close>

theorem lookup_failure_not_reported:
  "map_option (\<lambda>s. (trace s, dataFromRepo s, subscribed s))
     (run [Debounced (Str ''Rosa''), LookupFailure 0 ''timeout'',
           ValueChanges (Str ''Rose''), Debounced (Str ''Rose'')] ready)
   = Some ([FindDataFromRepo ''bdtfx'' ''Rosa'' False, OpenPanel], [], False)"
  by (simp add: model_defs)

section \<open>C4: emitting before stopping\<close>

text \<open>
  C4 fails on the code for a synonym. While occurrence 7 is edited the user picks a
  synonym: \<open>checkAndEmitUpdatedData\<close> only subscribes to the service, and
  \<open>stopEditingTaxo\<close> runs at once, so the session is reset (panel closed, flags
  cleared) with nothing emitted yet; \<open>UpdatedData\<close> follows when the service
  answers.
\<close>

theorem synonym_update_stops_before_emitting:
  "map_option (\<lambda>s. (trace s, isEditingData s, editingOccurenceId s))
     (run [Debounced (Obj 0)] (editing\<lparr>heap := [rosa_glauca], dataFromRepo := [0]\<rparr>))
   = Some ([GetValidOccurence (Val ''bdtfx'') (Val ''102'') (Val ''202''), ClosePanel, OpenPanel],
           False, Null)
   \<and> map_option trace
     (run [Debounced (Obj 0), ValidOccurenceResponse 0 rosa_dumalis]
        (editing\<lparr>heap := [rosa_glauca], dataFromRepo := [0]\<rparr>))
   = Some [GetValidOccurence (Val ''bdtfx'') (Val ''102'') (Val ''202''), ClosePanel, OpenPanel,
           UpdatedData 0]"
  by (simp add: model_defs)

section \<open>C5: selecting the only result\<close>

text \<open>
  C5 fails on the code. While occurrence 7 is edited and the only result is selected
  automatically, the record emitted has the occurrence id the service gave it
  (\<open>null\<close>) and the input keeps its text; the same candidate picked by the user is
  emitted with occurrence id 7 and the input is reset. Without an edit session the
  automatic selection leaves the candidate in the buffer and the text in the input;
  the user's selection clears both.
\<close>

theorem auto_select_not_stamped:
  "map_option (\<lambda>s. (trace s, occurenceId (heap s ! 0), inputValue s))
     (run [ValueChanges (Str ''Rosa''), Debounced (Str ''Rosa''), LookupResponse 0 [rosa_canina] False]
        (editing\<lparr>autoSelectValueIfOnlyOneResult := True\<rparr>))
   = Some ([FindDataFromRepo ''bdtfx'' ''Rosa'' False, OpenPanel, UpdatedData 0, ClosePanel],
           Null, Str ''Rosa'')
   \<and> map_option (\<lambda>s. (trace s, occurenceId (heap s ! 0), inputValue s))
     (run [ValueChanges (Obj 0), Debounced (Obj 0)]
        (editing\<lparr>autoSelectValueIfOnlyOneResult := True, heap := [rosa_canina], dataFromRepo := [0]\<rparr>))
   = Some ([UpdatedData 0, ClosePanel, OpenPanel], Val 7, Str '''')
   \<and> map_option (\<lambda>s. (trace s, dataFromRepo s, inputValue s))
     (run [ValueChanges (Str ''Rosa''), Debounced (Str ''Rosa''), LookupResponse 0 [rosa_canina] False]
        (ready\<lparr>autoSelectValueIfOnlyOneResult := True\<rparr>))
   = Some ([FindDataFromRepo ''bdtfx'' ''Rosa'' False, OpenPanel, NewData (Val 0)], [0], Str ''Rosa'')
   \<and> map_option (\<lambda>s. (trace s, dataFromRepo s, inputValue s))
     (run [ValueChanges (Obj 0), Debounced (Obj 0)]
        (ready\<lparr>autoSelectValueIfOnlyOneResult := True, heap := [rosa_canina], dataFromRepo := [0]\<rparr>))
   = Some ([NewData (Val 0), OpenPanel], [], Str '''')"
  by (simp add: model_defs)

section \<open>C6: the invariant of final records\<close>

lemma final_records_single [simp]:
  "final_records [NewData (Val r)] = [r]" "final_records [UpdatedData r] = [r]"
  "final_records [GetValidOccurence a b c] = []"
  by simp_all

text \<open>
  C6, as the code has it. Every record that \<open>checkAndEmitNewData\<close>,
  \<open>checkAndEmitUpdatedData\<close> or the callback of a valid-occurrence lookup (for a
  record that is a synonym) emits satisfies the invariant: a synonym carries a valid
  occurrence; a record that is not a synonym carries a copy of itself, a different
  object, and writing to the copy leaves the record as it is.
\<close>

theorem finalization_resolves:
  assumes "d < length (heap s)"
    and "s' = checkAndEmitNewData d s \<or> s' = checkAndEmitUpdatedData d s
         \<or> (\<exists>i validOcc. i < length (pendingValid s) \<and> fst (pendingValid s ! i) = d
               \<and> isSynonym (heap s ! d) = Val True \<and> s' = validOccurenceResponse i validOcc s)"
  shows "\<forall>r \<in> set (final_records (emitted_since s s')).
           r = d \<and> resolved (heap s') r
           \<and> (\<forall>c f. isSynonym (heap s' ! r) = Val False \<and> validOccurence (heap s' ! r) = Val c
                 \<longrightarrow> mutate c f (heap s') ! r = heap s' ! r)"
proof -
  have new: "\<forall>r \<in> set (final_records (emitted_since s (checkAndEmitNewData d s))).
           r = d \<and> resolved (heap (checkAndEmitNewData d s)) r
           \<and> (\<forall>c f. isSynonym (heap (checkAndEmitNewData d s) ! r) = Val False
                  \<and> validOccurence (heap (checkAndEmitNewData d s) ! r) = Val c
                 \<longrightarrow> mutate c f (heap (checkAndEmitNewData d s)) ! r = heap (checkAndEmitNewData d s) ! r)"
    using assms(1)
    by (simp add: checkAndEmitNewData_def emitted_since_def emit_def resolved_def mutate_def
        nth_append)
  have upd: "\<forall>r \<in> set (final_records (emitted_since s (checkAndEmitUpdatedData d s))).
           r = d \<and> resolved (heap (checkAndEmitUpdatedData d s)) r
           \<and> (\<forall>c f. isSynonym (heap (checkAndEmitUpdatedData d s) ! r) = Val False
                  \<and> validOccurence (heap (checkAndEmitUpdatedData d s) ! r) = Val c
                 \<longrightarrow> mutate c f (heap (checkAndEmitUpdatedData d s)) ! r = heap (checkAndEmitUpdatedData d s) ! r)"
    using assms(1)
    by (simp add: checkAndEmitUpdatedData_def emitted_since_def emit_def resolved_def mutate_def
        nth_append)
  have resp: "\<forall>r \<in> set (final_records (emitted_since s (validOccurenceResponse i validOcc s))).
           r = d \<and> resolved (heap (validOccurenceResponse i validOcc s)) r
           \<and> (\<forall>c f. isSynonym (heap (validOccurenceResponse i validOcc s) ! r) = Val False
                  \<and> validOccurence (heap (validOccurenceResponse i validOcc s) ! r) = Val c
                 \<longrightarrow> mutate c f (heap (validOccurenceResponse i validOcc s)) ! r
                     = heap (validOccurenceResponse i validOcc s) ! r)"
    if "i < length (pendingValid s)" "fst (pendingValid s ! i) = d" "isSynonym (heap s ! d) = Val True"
    for i validOcc
    using assms(1) that
    by (cases "snd (pendingValid s ! i)")
      (simp_all add: validOccurenceResponse_def emitted_since_def emit_def resolved_def mutate_def
        nth_append)
  show ?thesis using assms(2) new upd resp by blast
qed

text \<open>
  C6 on an accepted name: it is emitted, resolved, and renaming its copy does not
  rename it.
\<close>

theorem finalization_resolves_witness:
  "final_records (emitted_since (ready\<lparr>heap := [rosa_canina]\<rparr>)
      (checkAndEmitNewData 0 (ready\<lparr>heap := [rosa_canina]\<rparr>))) = [0]
   \<and> resolved (heap (checkAndEmitNewData 0 (ready\<lparr>heap := [rosa_canina]\<rparr>))) 0
   \<and> mutate 1 (\<lambda>r. r\<lparr>name := Val ''Rosa''\<rparr>) (heap (checkAndEmitNewData 0 (ready\<lparr>heap := [rosa_canina]\<rparr>))) ! 0
     = heap (checkAndEmitNewData 0 (ready\<lparr>heap := [rosa_canina]\<rparr>)) ! 0"
proof -
  have allocated: "0 < length (heap (ready\<lparr>heap := [rosa_canina]\<rparr>))" by simp
  have emitted: "final_records (emitted_since (ready\<lparr>heap := [rosa_canina]\<rparr>)
      (checkAndEmitNewData 0 (ready\<lparr>heap := [rosa_canina]\<rparr>))) = [0]"
    by (simp add: model_defs emitted_since_def)
  have shape: "isSynonym (heap (checkAndEmitNewData 0 (ready\<lparr>heap := [rosa_canina]\<rparr>)) ! 0) = Val False
     \<and> validOccurence (heap (checkAndEmitNewData 0 (ready\<lparr>heap := [rosa_canina]\<rparr>)) ! 0) = Val 1"
    by (simp add: model_defs)
  show ?thesis
    using finalization_resolves [OF allocated, of "checkAndEmitNewData 0 (ready\<lparr>heap := [rosa_canina]\<rparr>)"]
      emitted shape
    by auto
qed

text \<open>
  C6 fails as stated, on the free-text commit: under \<open>otherunknown\<close>, Enter on
  \<open>Quercus robur\<close> emits a record that is not a synonym and whose valid
  occurrence is \<open>null\<close>.
\<close>

theorem free_text_not_resolved:
  "map_option (\<lambda>s. (trace s, isSynonym (heap s ! 0), validOccurence (heap s ! 0), resolved (heap s) 0))
     (keyDownEnter (ready\<lparr>currentRepository := ''otherunknown'', inputValue := Str ''Quercus robur''\<rparr>))
   = Some ([NewData (Val 0)], Val False, Null, False)"
  by (simp add: model_defs resolved_def)

section \<open>C7: committing the same candidate twice\<close>

lemma debounced_lastDistinct:
  assumes "subscribed s" and "debounced v s = Some s'"
  shows "lastDistinct s' = Some v \<and> subscribed s'"
proof (cases "lastDistinct s = Some v")
  case True
  then have "s' = s" using assms by (simp add: debounced_def)
  then show ?thesis using True assms(1) by simp
next
  case False
  then obtain s1 i where p: "project v (s\<lparr>lastDistinct := Some v\<rparr>) = Some (s1, i)"
    using assms by (auto simp: debounced_def split: option.splits)
  then have c1: "chain s1 = chain (s\<lparr>lastDistinct := Some v\<rparr>)" by (rule chain_project)
  show ?thesis
  proof (cases i)
    case OfEmpty
    then have "subscription3_next False [] (s1\<lparr>activeLookup := None\<rparr>) = Some s'"
      using False p assms by (simp add: debounced_def)
    then have "chain s' = chain (s1\<lparr>activeLookup := None\<rparr>)"
      by (rule chain_subscription3_next)
    then show ?thesis using c1 assms(1) by (simp add: chain_def)
  next
    case ServiceLookup
    then have "s' = s1\<lparr>activeLookup := Some (nextLookup s1), nextLookup := Suc (nextLookup s1)\<rparr>"
      using False p assms by (simp add: debounced_def)
    then show ?thesis using c1 assms(1) by (simp add: chain_def)
  qed
qed

text \<open>
  C7, as the code has it. Take a subscribed chain, no edit session, and a candidate
  that is not a synonym or that carries its valid occurrence, other than the value
  \<open>distinctUntilChanged\<close> let through last. Committing it emits \<open>newData\<close>
  once. Committing the same object again, in any state, emits nothing:
  \<open>distinctUntilChanged\<close> drops the value, and all that changes is what the raw
  change does, the input control holding the object and \<open>isSearching\<close> raised.
  Two commits in succession thus give one emission.
\<close>

theorem repeated_commit_dropped:
  "(subscribed s \<and> \<not> isEditingData s \<and> lastDistinct s \<noteq> Some (Obj r) \<and> r < length (heap s)
      \<and> (isSynonym (heap s ! r) = Val False
          \<or> isSynonym (heap s ! r) = Val True \<and> isDefined (validOccurence (heap s ! r)))
     \<longrightarrow> (\<exists>s1. run (commit r) s = Some s1
            \<and> filter is_new_data (emitted_since s s1) = [NewData (Val r)]))
   \<and> (\<forall>s1. run (commit r) s = Some s1
         \<longrightarrow> run (commit r) s1 = Some (s1\<lparr>inputValue := Obj r, isSearching := True\<rparr>)
           \<and> run (commit r @ commit r) s = Some (s1\<lparr>inputValue := Obj r, isSearching := True\<rparr>))"
proof (intro conjI impI allI)
  assume c: "subscribed s \<and> \<not> isEditingData s \<and> lastDistinct s \<noteq> Some (Obj r) \<and> r < length (heap s)
      \<and> (isSynonym (heap s ! r) = Val False
          \<or> isSynonym (heap s ! r) = Val True \<and> isDefined (validOccurence (heap s ! r)))"
  then show "\<exists>s1. run (commit r) s = Some s1
            \<and> filter is_new_data (emitted_since s s1) = [NewData (Val r)]"
    by (elim conjE disjE)
      (simp_all add: commit_def valueChanges_def debounced_def project_def checkAndEmitNewData_def
        subscription3_next_empty emit_def emitted_since_def resetInput_def)
next
  fix s1
  assume first: "run (commit r) s = Some s1"
  then have d: "debounced (Obj r) (valueChanges (Obj r) s) = Some s1"
    by (simp add: commit_def split: option.splits)
  have drop: "debounced (Obj r) (s1\<lparr>inputValue := Obj r, isSearching := True\<rparr>)
      = Some (s1\<lparr>inputValue := Obj r, isSearching := True\<rparr>)"
  proof (cases "subscribed s")
    case True
    then have "subscribed (valueChanges (Obj r) s)" by (simp add: valueChanges_def)
    then have "lastDistinct s1 = Some (Obj r) \<and> subscribed s1"
      using d debounced_lastDistinct by blast
    then show ?thesis by (simp add: debounced_def)
  next
    case False
    then have "s1 = valueChanges (Obj r) s" using d by (simp add: debounced_def valueChanges_def)
    then show ?thesis using False by (simp add: debounced_def valueChanges_def)
  qed
  then show second: "run (commit r) s1 = Some (s1\<lparr>inputValue := Obj r, isSearching := True\<rparr>)"
    by (simp add: commit_def valueChanges_def)
  show "run (commit r @ commit r) s = Some (s1\<lparr>inputValue := Obj r, isSearching := True\<rparr>)"
    using first second by (simp add: run_append)
qed

text \<open>
  C7 on an accepted name picked twice: one \<open>newData\<close> after the first commit, still
  one after the second, which leaves the object in the input and \<open>isSearching\<close>
  raised.
\<close>

theorem repeated_commit_dropped_witness:
  "map_option (\<lambda>s. (filter is_new_data (trace s), isSearching s, inputValue s))
     (run (commit 0) (ready\<lparr>heap := [rosa_canina], dataFromRepo := [0]\<rparr>))
   = Some ([NewData (Val 0)], False, Str [])
   \<and> map_option (\<lambda>s. (filter is_new_data (trace s), isSearching s, inputValue s))
     (run (commit 0 @ commit 0) (ready\<lparr>heap := [rosa_canina], dataFromRepo := [0]\<rparr>))
   = Some ([NewData (Val 0)], True, Obj 0)"
proof -
  let ?st = "ready\<lparr>heap := [rosa_canina], dataFromRepo := [0]\<rparr>"
  have cond: "subscribed ?st \<and> \<not> isEditingData ?st \<and> lastDistinct ?st \<noteq> Some (Obj 0)
      \<and> 0 < length (heap ?st)
      \<and> (isSynonym (heap ?st ! 0) = Val False
          \<or> isSynonym (heap ?st ! 0) = Val True \<and> isDefined (validOccurence (heap ?st ! 0)))"
    by (simp add: ready_def initial_def rosa_canina_def)
  have empty: "trace ?st = []" by (simp add: ready_def initial_def)
  obtain s1 where first: "run (commit 0) ?st = Some s1"
    and once: "filter is_new_data (emitted_since ?st s1) = [NewData (Val 0)]"
    using repeated_commit_dropped [of ?st 0] cond by blast
  have both: "run (commit 0 @ commit 0) ?st = Some (s1\<lparr>inputValue := Obj 0, isSearching := True\<rparr>)"
    using repeated_commit_dropped [of ?st 0] first by blast
  have settled: "isSearching s1 = False \<and> inputValue s1 = Str []"
    using first by (auto simp: model_defs commit_def)
  have "filter is_new_data (trace s1) = [NewData (Val 0)]"
    using once empty by (simp add: emitted_since_def)
  then show ?thesis unfolding first both using settled by simp
qed

text \<open>
  C7 fails as stated: the same candidate committed twice in succession gives one
  \<open>NewData\<close>, not two.
\<close>

theorem repeated_commit_emits_once:
  "map_option trace
     (run (commit 0 @ commit 0) (ready\<lparr>heap := [rosa_canina], dataFromRepo := [0]\<rparr>))
   = Some [NewData (Val 0), OpenPanel]"
  by (simp add: model_defs commit_def)

section \<open>C9: input made of spaces\<close>

text \<open>
  C9, as the code has it. For every text that is empty or made of space characters
  (U+0020) only, the classification returns \<open>of([])\<close>, clearing the buffer unless
  the repository is \<open>otherunknown\<close>. The debounced value makes no call of
  \<open>findDataFromRepo\<close>, issues no lookup number and does not raise \<open>isLoading\<close>.
  When the chain is subscribed and the value is not the one let through last, the
  empty result set is applied: the buffer is empty, no lookup is listened to any
  more and \<open>isLoading\<close> is false; otherwise the value is dropped and nothing
  changes.
\<close>

theorem spaces_only_no_lookup:
  assumes "set txt \<subseteq> {CHR '' ''}"
  shows "project (Str txt) s
       = Some (if currentRepository s \<noteq> ''otherunknown'' then s\<lparr>dataFromRepo := []\<rparr> else s, OfEmpty)
     \<and> (\<exists>s'. debounced (Str txt) s = Some s'
          \<and> lookup_calls s' = lookup_calls s \<and> nextLookup s' = nextLookup s
          \<and> (isLoading s' \<longrightarrow> isLoading s)
          \<and> (if subscribed s \<and> lastDistinct s \<noteq> Some (Str txt)
              then dataFromRepo s' = [] \<and> activeLookup s' = None \<and> \<not> isLoading s'
              else s' = s))"
  using assms
  by (simp add: debounced_def project_def replace_spaces_empty subscription3_next_empty emit_def
      lookup_calls_def)

text \<open>
  C9 on three spaces typed while the lookup for \<open>ro\<close> is in flight and the buffer
  holds a candidate: the buffer is emptied, \<open>isLoading\<close> falls, and the late answer
  to \<open>ro\<close> does not fill the buffer again.
\<close>

theorem spaces_only_no_lookup_witness:
  "set ''   '' \<subseteq> {CHR '' ''}
   \<and> map_option (\<lambda>s. (isLoading s, activeLookup s, dataFromRepo s))
        (run [Debounced (Str ''ro'')] (ready\<lparr>heap := [rosa_canina], dataFromRepo := [0]\<rparr>))
     = Some (True, Some 0, [0])
   \<and> map_option (\<lambda>s. (isLoading s, activeLookup s, dataFromRepo s, lookup_calls s))
        (run [Debounced (Str ''ro''), Debounced (Str ''   ''), LookupResponse 0 [rosa_glauca] False]
           (ready\<lparr>heap := [rosa_canina], dataFromRepo := [0]\<rparr>))
     = Some (False, None, [], [FindDataFromRepo ''bdtfx'' ''ro'' False])"
proof -
  have spaces: "set ''   '' \<subseteq> {CHR '' ''}" by simp
  obtain s where in_flight: "debounced (Str ''ro'') (ready\<lparr>heap := [rosa_canina], dataFromRepo := [0]\<rparr>) = Some s"
    and before: "isLoading s" "activeLookup s = Some 0" "dataFromRepo s = [0]"
      "subscribed s" "lastDistinct s = Some (Str ''ro'')"
      "lookup_calls s = [FindDataFromRepo ''bdtfx'' ''ro'' False]"
    by (simp add: model_defs lookup_calls_def)
  obtain s' where blank: "debounced (Str ''   '') s = Some s'"
    and after: "lookup_calls s' = lookup_calls s" "dataFromRepo s' = []"
      "activeLookup s' = None" "\<not> isLoading s'"
    using spaces_only_no_lookup [OF spaces, of s] before by auto
  have late: "lookupResponse 0 [rosa_glauca] False s' = Some s'"
    using after by (simp add: lookupResponse_def)
  have one: "run [Debounced (Str ''ro'')] (ready\<lparr>heap := [rosa_canina], dataFromRepo := [0]\<rparr>) = Some s"
    using in_flight by simp
  have three: "run [Debounced (Str ''ro''), Debounced (Str ''   ''), LookupResponse 0 [rosa_glauca] False]
      (ready\<lparr>heap := [rosa_canina], dataFromRepo := [0]\<rparr>) = Some s'"
    using in_flight blank late by simp
  show ?thesis
    unfolding one three using spaces before after by simp
qed

text \<open>
  C9 fails as stated: a text made of one tab is whitespace only, and for it
  \<open>isLoading\<close> is raised and the service is called.
\<close>

theorem tab_issues_lookup:
  "map_option (\<lambda>s. (isLoading s, trace s)) (debounced (Str [CHR 0x09]) ready)
   = Some (True, [FindDataFromRepo ''bdtfx'' [CHR 0x09] False])"
  by (simp add: model_defs)

section \<open>C10: Enter on a selected candidate\<close>

text \<open>
  C10. When the free-text commit condition holds and the input control holds a
  candidate object, \<open>keyDownEnter\<close> returns the component as it was: no event,
  no change.
\<close>

theorem keyDownEnter_on_object:
  "(allowEmptyRepository s \<and> currentRepository s = ''otherunknown'')
     \<or> (currentRepository s \<noteq> ''otherunknown'' \<and> allowFreeValueIfNoResults s
         \<and> length (dataFromRepo s) = 0) \<Longrightarrow>
   inputValue s = Obj r \<Longrightarrow> keyDownEnter s = Some s"
  by (simp add: keyDownEnter_def)

text \<open>
  C10 on a component whose buffer is empty and whose input holds a candidate.
\<close>

theorem keyDownEnter_on_object_witness:
  "keyDownEnter (ready\<lparr>heap := [rosa_canina], inputValue := Obj 0\<rparr>)
   = Some (ready\<lparr>heap := [rosa_canina], inputValue := Obj 0\<rparr>)"
proof -
  have cond: "(allowEmptyRepository (ready\<lparr>heap := [rosa_canina], inputValue := Obj 0\<rparr>)
        \<and> currentRepository (ready\<lparr>heap := [rosa_canina], inputValue := Obj 0\<rparr>) = ''otherunknown'')
     \<or> (currentRepository (ready\<lparr>heap := [rosa_canina], inputValue := Obj 0\<rparr>) \<noteq> ''otherunknown''
        \<and> allowFreeValueIfNoResults (ready\<lparr>heap := [rosa_canina], inputValue := Obj 0\<rparr>)
        \<and> length (dataFromRepo (ready\<lparr>heap := [rosa_canina], inputValue := Obj 0\<rparr>)) = 0)"
    by (simp add: ready_def initial_def)
  have obj: "inputValue (ready\<lparr>heap := [rosa_canina], inputValue := Obj 0\<rparr>) = Obj 0"
    by simp
  show ?thesis by (rule keyDownEnter_on_object [OF cond obj])
qed

end
